theory Spec2Isabelle
  imports Complex_Main "HOL-Library.Option_ord" "HOL-Library.Monad_Syntax"
begin

section \<open>Moving average (\<^verbatim>\<open>moving_average\<close>, functions.py lines 70-74)\<close>

text \<open>
  The function is three numpy calls and a slice:
  \<^verbatim>\<open>
  padded_arr = np.pad(arr, (window_size // 2, window_size // 2), mode='reflect')
  moving_avg = np.convolve(padded_arr, np.ones(window_size) / window_size, mode='valid')
  return moving_avg[:-1]
  \<close>
  numpy raises \<open>ValueError\<close> for a negative pad width, for padding an empty array,
  and for a convolution with an empty operand; these are the \<open>Inl\<close> results.
\<close>

datatype np_error = ValueError

text \<open>
  The arrays hold 64-bit floating-point numbers. A finite float64 is a rational number,
  and every arithmetic operation returns the exact result rounded to the nearest
  float64, ties to the even mantissa. \<open>mantissa\<close> scales a positive number into
  \<open>[2^52, 2^53)\<close> and keeps the unit of its last place; the bound on the number of
  steps covers the whole exponent range of float64. Overflow to infinity and the
  reduced precision of subnormal numbers are not modelled.
\<close>

definition round_half_even :: "rat \<Rightarrow> int" where
  "round_half_even q =
     (let f = \<lfloor>q\<rfloor>; d = q - of_int f
      in if d < 1 / 2 then f else if 1 / 2 < d then f + 1 else if even f then f else f + 1)"

fun mantissa :: "nat \<Rightarrow> rat \<Rightarrow> rat \<Rightarrow> rat \<times> rat" where
  "mantissa 0 m ulp = (m, ulp)"
| "mantissa (Suc n) m ulp =
     (if 2 ^ 53 \<le> m then mantissa n (m / 2) (ulp * 2)
      else if m < 2 ^ 52 then mantissa n (m * 2) (ulp / 2)
      else (m, ulp))"

definition float64 :: "rat \<Rightarrow> rat" where
  "float64 q =
     (if q = 0 then 0
      else case mantissa 1200 \<bar>q\<bar> 1 of
             (m, ulp) \<Rightarrow> sgn q * of_int (round_half_even m) * ulp)"

text \<open>
  One round of numpy's reflect padding (\<^verbatim>\<open>_set_reflect_both\<close>): the area filled so
  far is \<open>cur\<close>; on each side a chunk of at most \<open>length cur - 1\<close> elements is mirrored
  around the edge element, which is not repeated. It returns the pad widths still to
  fill.
\<close>

definition left_chunk :: "'a list \<Rightarrow> nat \<Rightarrow> 'a list" where
  "left_chunk cur left_pad = rev (take (min (length cur - 1) left_pad) (drop 1 cur))"

definition right_chunk :: "'a list \<Rightarrow> nat \<Rightarrow> 'a list" where
  "right_chunk cur right_pad = take (min (length cur - 1) right_pad) (drop 1 (rev cur))"

text \<open>
  numpy repeats the round until both pad areas are full, which takes more than one
  round when the pad is wider than the array. The loop is entered with at least two
  elements only (the shorter arrays are handled before it, see \<open>np_pad_reflect\<close>), so
  every round fills at least one position.
\<close>

function reflect_loop :: "'a list \<Rightarrow> nat \<Rightarrow> nat \<Rightarrow> 'a list" where
  "reflect_loop cur left_pad right_pad =
     (if (0 < left_pad \<or> 0 < right_pad) \<and> 2 \<le> length cur
      then reflect_loop (left_chunk cur left_pad @ cur @ right_chunk cur right_pad)
             (left_pad - min (length cur - 1) left_pad)
             (right_pad - min (length cur - 1) right_pad)
      else cur)"
  by pat_completeness auto
termination
  by (relation "measure (\<lambda>(cur, left_pad, right_pad). left_pad + right_pad)") auto

declare reflect_loop.simps [simp del]

text \<open>
  \<^verbatim>\<open>np.pad(arr, (left, right), mode='reflect')\<close> on a one-dimensional array: a negative
  width is refused, an empty array cannot be extended, a one-element array is extended
  with its only value (numpy's legacy behaviour), anything longer is reflected.
\<close>

definition np_pad_reflect :: "'a list \<Rightarrow> int \<Rightarrow> int \<Rightarrow> np_error + 'a list" where
  "np_pad_reflect arr left right =
     (if left < 0 \<or> right < 0 then Inl ValueError
      else case arr of
             [] \<Rightarrow> if 0 < left \<or> 0 < right then Inl ValueError else Inr []
           | [x] \<Rightarrow> Inr (replicate (nat left) x @ [x] @ replicate (nat right) x)
           | _ \<Rightarrow> Inr (reflect_loop arr (nat left) (nat right)))"

text \<open>\<^verbatim>\<open>np.ones(window_size) / window_size\<close>: the uniform kernel.\<close>

definition uniform_kernel :: "int \<Rightarrow> rat list" where
  "uniform_kernel window_size = replicate (nat window_size) (float64 (1 / of_int window_size))"

text \<open>
  \<^verbatim>\<open>np.convolve(a, v, mode='valid')\<close>: both operands must be non-empty, the longer one
  is taken as the signal, and the result has one entry for every position where the
  reversed kernel fits entirely inside the signal. Each entry is a dot product,
  accumulated from left to right as a plain loop does, every product and every sum
  rounded. (For long operands numpy's kernel may add in another order; that can
  change the last bits of an entry, never the number of entries.)
\<close>

definition dot :: "rat list \<Rightarrow> rat list \<Rightarrow> rat" where
  "dot xs ys = foldl (\<lambda>acc (x, y). float64 (acc + float64 (x * y))) 0 (zip xs ys)"

definition np_convolve_valid :: "rat list \<Rightarrow> rat list \<Rightarrow> np_error + rat list" where
  "np_convolve_valid a v =
     (if a = [] \<or> v = [] then Inl ValueError
      else let sig = (if length a < length v then v else a);
               ker = (if length a < length v then a else v)
           in Inr (map (\<lambda>k. dot (take (length ker) (drop k sig)) (rev ker))
                       [0 ..< length sig - length ker + 1]))"

definition moving_average :: "rat list \<Rightarrow> int \<Rightarrow> np_error + rat list" where
  "moving_average arr window_size =
     (case np_pad_reflect arr (window_size div 2) (window_size div 2) of
        Inl e \<Rightarrow> Inl e
      | Inr padded_arr \<Rightarrow>
          (case np_convolve_valid padded_arr (uniform_kernel window_size) of
             Inl e \<Rightarrow> Inl e
           | Inr moving_avg \<Rightarrow> Inr (butlast moving_avg)))"

section \<open>The dataframe engine, as far as the two Spark functions use it\<close>

text \<open>
  A cell is null, a 64-bit integer (the generated \<open>timestep\<close>, a cast to integer), a
  number, or text. The CSV files are read without a schema, so every field arrives as
  text; a field whose text Spark's implicit cast reads as a number is represented by
  that number (\<open>Num\<close>), any other text by \<open>Str\<close>, an empty field by \<open>Null\<close>.
  The engine's numbers are double precision; the division and the means below are
  exact, which is what the engine computes as long as the integers involved stay
  below \<open>2^53\<close>. The 32-bit range of \<^verbatim>\<open>cast('integer')\<close> is modelled (see
  \<open>cast_integer\<close>).
\<close>

datatype cell = Null | Long int | Num rat | Str string

record dataframe =
  columns :: "string list"
  rows :: "cell list list"

text \<open>
  In its default configuration the engine compares column names without regard to
  case. \<open>lower\<close> folds the letters \<open>A\<close> to \<open>Z\<close>; for names made of ASCII characters
  \<open>same_name\<close> is the engine's comparison.
\<close>

definition lower_char :: "char \<Rightarrow> char" where
  "lower_char c =
     (case map_of (zip ''ABCDEFGHIJKLMNOPQRSTUVWXYZ'' ''abcdefghijklmnopqrstuvwxyz'') c of
        Some l \<Rightarrow> l
      | None \<Rightarrow> c)"

definition lower :: "string \<Rightarrow> string" where
  "lower name = map lower_char name"

definition same_name :: "string \<Rightarrow> string \<Rightarrow> bool" where
  "same_name a b = (lower a = lower b)"

definition ascii_names :: "string list \<Rightarrow> bool" where
  "ascii_names names = list_all (list_all (\<lambda>c. (of_char c :: nat) < 128)) names"

text \<open>The value of a row under a column name; the first column of that name counts.\<close>

definition col :: "string list \<Rightarrow> cell list \<Rightarrow> string \<Rightarrow> cell" where
  "col cols r name = (case map_of (zip cols r) name of Some c \<Rightarrow> c | None \<Rightarrow> Null)"

text \<open>
  A column reference resolves when exactly one column has the name; the engine raises
  \<open>AnalysisException\<close> for an unknown and for an ambiguous reference. A raised
  exception is the result \<open>None\<close> below.
\<close>

definition resolves :: "string list \<Rightarrow> string \<Rightarrow> bool" where
  "resolves cols name = (count_list cols name = 1)"

text \<open>The numeric reading of a cell (the implicit cast to a number): none for null and text.\<close>

fun as_num :: "cell \<Rightarrow> rat option" where
  "as_num (Long i) = Some (of_int i)"
| "as_num (Num q) = Some q"
| "as_num Null = None"
| "as_num (Str s) = None"

text \<open>
  The integral part of a number: a cast to an integer type drops the fraction (rounds
  toward zero).
\<close>

definition to_integer :: "rat \<Rightarrow> int" where
  "to_integer q = (if 0 \<le> q then \<lfloor>q\<rfloor> else \<lceil>q\<rceil>)"

text \<open>
  \<^verbatim>\<open>.cast('integer')\<close> of a double: the target is a 32-bit integer, and a value beyond
  its range becomes the nearest end of the range.
\<close>

definition cast_integer :: "rat \<Rightarrow> int" where
  "cast_integer q = max (- (2 ^ 31)) (min (2 ^ 31 - 1) (to_integer q))"

text \<open>
  SQL's three-valued logic: a comparison with null is null (\<open>None\<close>), and \<open>a | b\<close> is
  true as soon as one side is true. \<open>eq_lit c n\<close> is \<^verbatim>\<open>F.col(...) == n\<close> for an integer
  literal \<open>n\<close>: the engine casts the (text) column to an integer and compares.
\<close>

definition eq_lit :: "cell \<Rightarrow> int \<Rightarrow> bool option" where
  "eq_lit c n = (case as_num c of None \<Rightarrow> None | Some q \<Rightarrow> Some (to_integer q = n))"

fun sql_or :: "bool option \<Rightarrow> bool option \<Rightarrow> bool option" where
  "sql_or (Some True) b = Some True"
| "sql_or a (Some True) = Some True"
| "sql_or (Some False) (Some False) = Some False"
| "sql_or a b = None"

text \<open>
  \<^verbatim>\<open>df.withColumn(name, e)\<close>, with the values of \<open>e\<close> given row by row: an existing
  column of that name (up to case) is replaced where it stands and takes the new
  name, otherwise the column is appended.
\<close>

definition withColumn :: "string \<Rightarrow> cell list \<Rightarrow> dataframe \<Rightarrow> dataframe" where
  "withColumn name vals df =
     (let cols = (if list_ex (same_name name) (columns df)
                  then map (\<lambda>c. if same_name name c then name else c) (columns df)
                  else columns df @ [name])
      in \<lparr>columns = cols,
          rows = map2 (\<lambda>v r. map (\<lambda>c. if c = name then v else col (columns df) r c) cols)
                   vals (rows df)\<rparr>)"

definition select :: "string list \<Rightarrow> dataframe \<Rightarrow> dataframe option" where
  "select names df =
     (if list_all (resolves (columns df)) names
      then Some \<lparr>columns = names, rows = map (\<lambda>r. map (col (columns df) r) names) (rows df)\<rparr>
      else None)"

definition toDF :: "string list \<Rightarrow> dataframe \<Rightarrow> dataframe" where
  "toDF names df = \<lparr>columns = names, rows = rows df\<rparr>"

text \<open>
  \<^verbatim>\<open>df.drop(*names)\<close>: every column that has one of the names (up to case) is removed;
  a name that is no column is ignored.
\<close>

definition drop_columns :: "string list \<Rightarrow> dataframe \<Rightarrow> dataframe" where
  "drop_columns names df =
     (let keep = filter (\<lambda>c. \<not> list_ex (same_name c) names) (columns df)
      in \<lparr>columns = keep, rows = map (\<lambda>r. map (col (columns df) r) keep) (rows df)\<rparr>)"

text \<open>
  \<^verbatim>\<open>left.join(right, on=keys, how='left')\<close>: the key columns come first and once, then
  the other columns of the left table, then the other columns of the right table. A
  left row is paired with every right row that has equal, non-null keys, and is kept
  with nulls on the right when there is none.
\<close>

definition keys_match :: "string list \<Rightarrow> string list \<Rightarrow> cell list \<Rightarrow> string list \<Rightarrow> cell list \<Rightarrow> bool" where
  "keys_match keys lcols l rcols r =
     list_all (\<lambda>k. col lcols l k \<noteq> Null \<and> col lcols l k = col rcols r k) keys"

definition join_row :: "string list \<Rightarrow> dataframe \<Rightarrow> dataframe \<Rightarrow> cell list \<Rightarrow> cell list list" where
  "join_row keys left right l =
     (let lo = filter (\<lambda>c. c \<notin> set keys) (columns left);
          ro = filter (\<lambda>c. c \<notin> set keys) (columns right);
          lpart = map (col (columns left) l) (keys @ lo);
          ms = filter (keys_match keys (columns left) l (columns right)) (rows right)
      in if ms = [] then [lpart @ replicate (length ro) Null]
         else map (\<lambda>r. lpart @ map (col (columns right) r) ro) ms)"

definition join_left :: "string list \<Rightarrow> dataframe \<Rightarrow> dataframe \<Rightarrow> dataframe option" where
  "join_left keys left right =
     (if list_all (resolves (columns left)) keys \<and> list_all (resolves (columns right)) keys
      then Some \<lparr>columns = keys @ filter (\<lambda>c. c \<notin> set keys) (columns left)
                               @ filter (\<lambda>c. c \<notin> set keys) (columns right),
                 rows = concat (map (join_row keys left right) (rows left))\<rparr>
      else None)"

text \<open>\<^verbatim>\<open>df.orderBy(name)\<close>: ascending, nulls first.\<close>

definition orderBy :: "string \<Rightarrow> dataframe \<Rightarrow> dataframe option" where
  "orderBy name df =
     (if resolves (columns df) name
      then Some \<lparr>columns = columns df,
                 rows = sort_key (\<lambda>r. as_num (col (columns df) r name)) (rows df)\<rparr>
      else None)"

text \<open>
  An aggregate expression: the name of its output column, the columns it reads, and
  its value on the rows of one group.
\<close>

record agg_col =
  out_name :: string
  refs :: "string list"
  eval_agg :: "string list \<Rightarrow> cell list list \<Rightarrow> cell"

definition with_alias :: "string \<Rightarrow> agg_col \<Rightarrow> agg_col" where
  "with_alias name a = a\<lparr>out_name := name\<rparr>"

text \<open>The three aggregates of the source. All of them skip nulls.\<close>

definition max_cells :: "cell list \<Rightarrow> cell" where
  "max_cells cs =
     (case filter (\<lambda>c. as_num c \<noteq> None) cs of
        [] \<Rightarrow> Null
      | v # vs \<Rightarrow> fold (\<lambda>c m. if as_num m < as_num c then c else m) vs v)"

definition avg_cells :: "cell list \<Rightarrow> cell" where
  "avg_cells cs =
     (case List.map_filter as_num cs of
        [] \<Rightarrow> Null
      | q # qs \<Rightarrow> Num (sum_list (q # qs) / of_nat (length (q # qs))))"

text \<open>
  The most frequent value. Spark leaves the choice among equally frequent values open;
  here the one met first wins.
\<close>

definition mode_cells :: "cell list \<Rightarrow> cell" where
  "mode_cells cs =
     (case filter (\<lambda>c. c \<noteq> Null) cs of
        [] \<Rightarrow> Null
      | v # vs \<Rightarrow> fold (\<lambda>c m. if count_list (v # vs) m < count_list (v # vs) c then c else m) vs v)"

definition F_max :: "string \<Rightarrow> agg_col" where
  "F_max c = \<lparr>out_name = ''max('' @ c @ '')'', refs = [c],
             eval_agg = (\<lambda>cols grp. max_cells (map (\<lambda>r. col cols r c) grp))\<rparr>"

definition F_avg :: "string \<Rightarrow> agg_col" where
  "F_avg c = \<lparr>out_name = ''avg('' @ c @ '')'', refs = [c],
             eval_agg = (\<lambda>cols grp. avg_cells (map (\<lambda>r. col cols r c) grp))\<rparr>"

definition F_mode :: "string \<Rightarrow> agg_col" where
  "F_mode c = \<lparr>out_name = ''mode('' @ c @ '')'', refs = [c],
              eval_agg = (\<lambda>cols grp. mode_cells (map (\<lambda>r. col cols r c) grp))\<rparr>"

text \<open>
  \<^verbatim>\<open>df.groupBy(key).agg(*aggs)\<close>: one row for every distinct value of the key (null is
  a value of its own), holding the key and then the aggregates. The grouping column is
  part of the result, as the engine's default is.
\<close>

definition groupBy_agg :: "string \<Rightarrow> agg_col list \<Rightarrow> dataframe \<Rightarrow> dataframe option" where
  "groupBy_agg key aggs df =
     (if resolves (columns df) key \<and> list_all (\<lambda>a. list_all (resolves (columns df)) (refs a)) aggs
      then Some \<lparr>columns = key # map out_name aggs,
                 rows = map (\<lambda>k. k # map (\<lambda>a. eval_agg a (columns df)
                                     (filter (\<lambda>r. col (columns df) r key = k) (rows df))) aggs)
                            (remdups (map (\<lambda>r. col (columns df) r key) (rows df)))\<rparr>
      else None)"

text \<open>
  A CSV file as the engine reads it: the column names the reader delivers and the rows,
  split into the partitions the engine chose. \<^verbatim>\<open>F.monotonically_increasing_id()\<close> numbers record \<open>i\<close> of partition
  \<open>p\<close> as \<open>p * 2^33 + i\<close>.
\<close>

record csv_file =
  header :: "string list"
  partitions :: "cell list list list"

definition monotonically_increasing_id :: "nat list \<Rightarrow> int list" where
  "monotonically_increasing_id sizes =
     concat (map (\<lambda>(p, n). map (\<lambda>i. int p * 2 ^ 33 + int i) [0 ..< n])
                 (zip [0 ..< length sizes] sizes))"

definition read_csv :: "csv_file \<Rightarrow> dataframe" where
  "read_csv f = \<lparr>columns = header f, rows = concat (partitions f)\<rparr>"

definition with_timestep :: "csv_file \<Rightarrow> dataframe" where
  "with_timestep f =
     withColumn ''timestep''
       (map Long (monotonically_increasing_id (map length (partitions f)))) (read_csv f)"

section \<open>Alignment and merge (\<^verbatim>\<open>dataset_preparation\<close>, functions.py lines 6-49)\<close>

text \<open>
  The label expression of lines 34-36:
  \<^verbatim>\<open>
  F.when((F.col('bad_road_left') == 1) | (F.col('bad_road_right') == 1), 'bad')
   .when((F.col('regular_road_left') == 1) | (F.col('regular_road_right') == 1), 'regular')
   .otherwise('good')
  \<close>
  A \<open>when\<close> branch is taken when its condition is true; a null condition is not.
\<close>

definition cond :: "string list \<Rightarrow> cell list \<Rightarrow> cell" where
  "cond cols r =
     (if sql_or (eq_lit (col cols r ''bad_road_left'') 1)
                (eq_lit (col cols r ''bad_road_right'') 1) = Some True
      then Str ''bad''
      else if sql_or (eq_lit (col cols r ''regular_road_left'') 1)
                     (eq_lit (col cols r ''regular_road_right'') 1) = Some True
      then Str ''regular''
      else Str ''good'')"

definition shared_fields :: "string list" where
  "shared_fields = [''timestep'', ''latitude'', ''longitude'', ''speed'']"

definition label_columns :: "string list" where
  "label_columns = [''timestep'', ''good_road_left'', ''good_road_right'',
     ''regular_road_left'', ''regular_road_right'', ''bad_road_left'', ''bad_road_right'']"

definition timestamp_columns :: "string list" where
  "timestamp_columns = [''timestamp_L'', ''timestamp_R'', ''timestamp_gps_L'', ''timestamp_gps_R'']"

definition left_colnames :: "string list \<Rightarrow> string list" where
  "left_colnames cols = map (\<lambda>colname. if colname \<notin> set shared_fields then colname @ ''_L'' else colname) cols"

definition right_colnames :: "string list \<Rightarrow> string list" where
  "right_colnames cols = map (\<lambda>colname. if colname \<notin> set shared_fields then colname @ ''_R'' else colname) cols"

text \<open>
  The three arguments are the three files of the run, as read. The steps are those of
  the source, in its order.
\<close>

definition dataset_preparation :: "csv_file \<Rightarrow> csv_file \<Rightarrow> csv_file \<Rightarrow> dataframe option" where
  "dataset_preparation left_csv right_csv labels_csv =
     do {
       let pvs_df_left = with_timestep left_csv;
       let pvs_df_right = with_timestep right_csv;
       let pvs_labels = with_timestep labels_csv;
       pvs_labels \<leftarrow> select label_columns pvs_labels;
       let pvs_labels = withColumn ''road_condition''
                          (map (cond (columns pvs_labels)) (rows pvs_labels)) pvs_labels;
       pvs_labels \<leftarrow> select [''timestep'', ''road_condition''] pvs_labels;
       let pvs_df_left = toDF (left_colnames (columns pvs_df_left)) pvs_df_left;
       let pvs_df_right = toDF (right_colnames (columns pvs_df_right)) pvs_df_right;
       sides \<leftarrow> join_left shared_fields pvs_df_left pvs_df_right;
       joined \<leftarrow> join_left [''timestep''] sides pvs_labels;
       pvs_df \<leftarrow> orderBy ''timestep'' joined;
       Some (drop_columns timestamp_columns pvs_df)
     }"

section \<open>Windowed approximation (\<^verbatim>\<open>approximate_ts\<close>, functions.py lines 52-67)\<close>

text \<open>
  \<^verbatim>\<open>(F.col('timestep') / timesteps).cast('integer')\<close>: the division is a division of
  numbers, null for a null operand and (in the engine's default mode) for a zero
  divisor; the cast drops the fraction and keeps the result in the 32-bit range.
\<close>

definition group_index :: "int \<Rightarrow> cell \<Rightarrow> cell" where
  "group_index timesteps c =
     (case as_num c of
        None \<Rightarrow> Null
      | Some q \<Rightarrow> if timesteps = 0 then Null else Long (cast_integer (q / of_int timesteps)))"

definition approximate_ts :: "dataframe \<Rightarrow> agg_col list \<Rightarrow> int \<Rightarrow> bool \<Rightarrow> dataframe option" where
  "approximate_ts df features timesteps label =
     (if resolves (columns df) ''timestep''
      then do {
        let df = withColumn ''group_by''
                   (map (\<lambda>r. group_index timesteps (col (columns df) r ''timestep'')) (rows df)) df;
        res \<leftarrow> (if label
                then groupBy_agg ''group_by''
                       ([with_alias ''timestep'' (F_max ''timestep''),
                         with_alias ''road_condition'' (F_mode ''road_condition''),
                         with_alias ''latitude'' (F_avg ''latitude''),
                         with_alias ''longitude'' (F_avg ''longitude'')] @ features) df
                else groupBy_agg ''group_by''
                       ([with_alias ''timestep'' (F_max ''timestep''),
                         with_alias ''latitude'' (F_avg ''latitude''),
                         with_alias ''longitude'' (F_avg ''longitude'')] @ features) df);
        orderBy ''timestep'' res
      }
      else None)"

section \<open>Notions for the statements about \<^verbatim>\<open>approximate_ts\<close>\<close>

text \<open>
  Line 59 on its own, the list of aggregates of lines 63-66, the rows and the keys of
  the windows, the columns of the result, and the condition under which every column
  reference of \<open>approximate_ts\<close> resolves (it does not depend on \<open>timesteps\<close>).
\<close>

definition with_group_by :: "int \<Rightarrow> dataframe \<Rightarrow> dataframe" where
  "with_group_by timesteps df =
     withColumn ''group_by''
       (map (\<lambda>r. group_index timesteps (col (columns df) r ''timestep'')) (rows df)) df"

definition aggregates :: "agg_col list \<Rightarrow> bool \<Rightarrow> agg_col list" where
  "aggregates features label =
     with_alias ''timestep'' (F_max ''timestep'')
     # (if label then [with_alias ''road_condition'' (F_mode ''road_condition'')] else [])
     @ [with_alias ''latitude'' (F_avg ''latitude''), with_alias ''longitude'' (F_avg ''longitude'')]
     @ features"

definition accepted :: "dataframe \<Rightarrow> agg_col list \<Rightarrow> bool \<Rightarrow> bool" where
  "accepted df features label =
     (resolves (columns df) ''timestep''
      \<and> resolves (columns (with_group_by 1 df)) ''group_by''
      \<and> list_all (\<lambda>a. list_all (resolves (columns (with_group_by 1 df))) (refs a))
           (aggregates features label)
      \<and> resolves (''group_by'' # map out_name (aggregates features label)) ''timestep'')"

definition window_rows :: "dataframe \<Rightarrow> cell \<Rightarrow> cell list list" where
  "window_rows gdf k = filter (\<lambda>r. col (columns gdf) r ''group_by'' = k) (rows gdf)"

definition window_keys :: "dataframe \<Rightarrow> cell list" where
  "window_keys gdf = remdups (map (\<lambda>r. col (columns gdf) r ''group_by'') (rows gdf))"

definition out_columns :: "agg_col list \<Rightarrow> bool \<Rightarrow> string list" where
  "out_columns features label = ''group_by'' # map out_name (aggregates features label)"

text \<open>A small table for the concrete instances below.\<close>

definition sample_table :: dataframe where
  "sample_table =
     \<lparr>columns = [''timestep'', ''latitude'', ''longitude'', ''road_condition''],
      rows = [[Long 0, Num 1, Num 2, Str ''bad''],
              [Long 1, Num 3, Num 4, Str ''bad''],
              [Long 2, Num 5, Num 6, Str ''good'']]\<rparr>"






section \<open>Notions for the statements about \<^verbatim>\<open>dataset_preparation\<close>\<close>

text \<open>
  The three files of a run can be merged when the columns the function names exist
  (once) in them: the shared fields in both sensor files, the indicators in the label
  file. This is exactly when no column reference of \<open>dataset_preparation\<close> fails.
\<close>

definition readable_run :: "csv_file \<Rightarrow> csv_file \<Rightarrow> csv_file \<Rightarrow> bool" where
  "readable_run left_csv right_csv labels_csv =
     (list_all (resolves (columns (with_timestep left_csv))) shared_fields
      \<and> list_all (resolves (columns (with_timestep right_csv))) shared_fields
      \<and> list_all (resolves (columns (with_timestep labels_csv))) label_columns)"

section \<open>A small run for the concrete instances\<close>

text \<open>
  Three files of three records each, read in two partitions, so that the generated
  \<open>timestep\<close> values are \<open>0\<close>, \<open>1\<close> and \<open>2^33\<close>.
\<close>

definition sample_left :: csv_file where
  "sample_left =
     \<lparr>header = [''timestamp'', ''acc_x'', ''latitude'', ''longitude'', ''speed''],
      partitions = [[[Num 10, Num 1, Num 5, Num 6, Num 7], [Num 11, Num 2, Num 5, Num 6, Num 8]],
                    [[Num 12, Num 3, Num 5, Num 6, Num 9]]]\<rparr>"

definition sample_right :: csv_file where
  "sample_right =
     \<lparr>header = [''timestamp'', ''acc_x'', ''latitude'', ''longitude'', ''speed''],
      partitions = [[[Num 10, Num 21, Num 5, Num 6, Num 7], [Num 11, Num 22, Num 5, Num 6, Num 8]],
                    [[Num 12, Num 23, Num 5, Num 6, Num 9]]]\<rparr>"

definition sample_labels :: csv_file where
  "sample_labels =
     \<lparr>header = [''good_road_left'', ''good_road_right'', ''regular_road_left'',
                ''regular_road_right'', ''bad_road_left'', ''bad_road_right''],
      partitions = [[[Num 1, Num 1, Num 0, Num 0, Num 0, Num 0], [Num 0, Num 0, Num 1, Num 0, Num 0, Num 1]],
                    [[Num 0, Num 0, Num 1, Num 0, Num 0, Num 0]]]\<rparr>"

definition sample_aligned :: dataframe where
  "sample_aligned =
     \<lparr>columns = [''timestep'', ''latitude'', ''longitude'', ''speed'', ''acc_x_L'', ''acc_x_R'',
                 ''road_condition''],
      rows = [[Long 0, Num 5, Num 6, Num 7, Num 1, Num 21, Str ''good''],
              [Long 1, Num 5, Num 6, Num 8, Num 2, Num 22, Str ''bad''],
              [Long 8589934592, Num 5, Num 6, Num 9, Num 3, Num 23, Str ''regular'']]\<rparr>"

section \<open>Properties of the moving average\<close>

lemma mantissa_step:
  "0 < n \<Longrightarrow> mantissa n m ulp =
     (if 2 ^ 53 \<le> m then mantissa (n - 1) (m / 2) (ulp * 2)
      else if m < 2 ^ 52 then mantissa (n - 1) (m * 2) (ulp / 2)
      else (m, ulp))"
  by (cases n) simp_all

lemma floor_rat_numeral: "\<lfloor>(numeral a :: rat) / numeral b\<rfloor> = numeral a div numeral b"
  by (metis floor_divide_of_int_eq of_int_numeral)

lemmas float64_eval = float64_def mantissa_step round_half_even_def Let_def floor_rat_numeral

lemma moving_average_1_2_3:
  "moving_average [1, 2, 3] 2 = Inr [3 / 2, 3 / 2, 5 / 2]"
  by (simp add: moving_average_def np_pad_reflect_def reflect_loop.simps left_chunk_def
        right_chunk_def uniform_kernel_def numeral_2_eq_2 np_convolve_valid_def dot_def upt_rec
        float64_eval)

lemma pad_1_to_5:
  "np_pad_reflect [1, 2, 3, 4, 5 :: rat] (3 div 2) (3 div 2) = Inr [2, 1, 2, 3, 4, 5, 4]"
  by (simp add: np_pad_reflect_def reflect_loop.simps left_chunk_def right_chunk_def)

lemma uniform_kernel_3:
  "uniform_kernel 3 = [6004799503160661 / 2 ^ 54, 6004799503160661 / 2 ^ 54,
                       6004799503160661 / 2 ^ 54]"
  by (simp add: uniform_kernel_def numeral_3_eq_3 float64_eval)

lemma convolve_1_to_5:
  "np_convolve_valid [2, 1, 2, 3, 4, 5, 4]
     [6004799503160661 / 2 ^ 54, 6004799503160661 / 2 ^ 54, 6004799503160661 / 2 ^ 54]
   = Inr [3752999689475413 / 2 ^ 51, 2, 3, 4 - 1 / 2 ^ 51, 4878899596318037 / 2 ^ 50]"
  by (simp add: np_convolve_valid_def dot_def upt_rec float64_eval)

lemma moving_average_1_to_5:
  "moving_average [1, 2, 3, 4, 5] 3 = Inr [3752999689475413 / 2 ^ 51, 2, 3, 4 - 1 / 2 ^ 51]"
  by (simp only: moving_average_def pad_1_to_5 uniform_kernel_3 convolve_1_to_5 sum.case
        butlast.simps) simp

lemma length_left_chunk:
  "length (left_chunk cur p) = min (length cur - 1) p"
  by (simp add: left_chunk_def)

lemma length_right_chunk:
  "length (right_chunk cur p) = min (length cur - 1) p"
  by (simp add: right_chunk_def)

lemma reflect_loop_step:
  "(0 < l \<or> 0 < r) \<and> 2 \<le> length cur \<Longrightarrow>
   reflect_loop cur l r =
     reflect_loop (left_chunk cur l @ cur @ right_chunk cur r)
       (l - min (length cur - 1) l) (r - min (length cur - 1) r)"
  by (subst reflect_loop.simps) (rule if_P)

lemma reflect_loop_done:
  "\<not> ((0 < l \<or> 0 < r) \<and> 2 \<le> length cur) \<Longrightarrow> reflect_loop cur l r = cur"
  by (subst reflect_loop.simps) (rule if_not_P)

lemma length_reflect_loop:
  "2 \<le> length cur \<Longrightarrow> length (reflect_loop cur l r) = length cur + l + r"
proof (induction cur l r rule: reflect_loop.induct)
  case (1 cur l r)
  show ?case
  proof (cases "0 < l \<or> 0 < r")
    case True
    define a where "a = min (length cur - 1) l"
    define b where "b = min (length cur - 1) r"
    define nxt where "nxt = left_chunk cur l @ cur @ right_chunk cur r"
    have len: "length nxt = a + length cur + b"
      by (simp add: nxt_def a_def b_def length_left_chunk length_right_chunk)
    have le: "a \<le> l" "b \<le> r" by (simp_all add: a_def b_def)
    have big: "2 \<le> length nxt" using "1.prems" len by simp
    have go: "(0 < l \<or> 0 < r) \<and> 2 \<le> length cur" using True "1.prems" by simp
    have "2 \<le> length nxt \<Longrightarrow>
          length (reflect_loop nxt (l - a) (r - b)) = length nxt + (l - a) + (r - b)"
      unfolding nxt_def a_def b_def by (rule "1.IH" [OF go])
    then have "length (reflect_loop nxt (l - a) (r - b)) = length nxt + (l - a) + (r - b)"
      using big by blast
    moreover have "reflect_loop cur l r = reflect_loop nxt (l - a) (r - b)"
      unfolding nxt_def a_def b_def by (rule reflect_loop_step [OF go])
    ultimately show ?thesis using len le by simp
  next
    case False
    then show ?thesis by (simp add: reflect_loop_done)
  qed
qed

lemma np_pad_reflect_length:
  assumes "arr \<noteq> []" and "0 \<le> l" and "0 \<le> r"
  shows "\<exists>p. np_pad_reflect arr l r = Inr p \<and> length p = length arr + nat l + nat r"
proof (cases arr)
  case Nil
  with assms show ?thesis by simp
next
  case (Cons x xs)
  show ?thesis
  proof (cases xs)
    case Nil
    with Cons assms show ?thesis by (simp add: np_pad_reflect_def)
  next
    case (Cons y ys)
    with \<open>arr = x # xs\<close> assms show ?thesis
      by (simp add: np_pad_reflect_def length_reflect_loop)
  qed
qed

lemma np_convolve_valid_length:
  assumes "v \<noteq> []" and "length v \<le> length a"
  shows "\<exists>c. np_convolve_valid a v = Inr c \<and> length c = length a - length v + 1"
proof -
  from assms have "a \<noteq> []" by auto
  with assms show ?thesis by (simp add: np_convolve_valid_def Let_def)
qed

lemma moving_average_length:
  assumes "arr \<noteq> []" and "0 < w"
  shows "\<exists>res. moving_average arr w = Inr res
           \<and> int (length res) = int (length arr) + 2 * (w div 2) - w"
proof -
  have h: "0 \<le> w div 2" using assms(2) by simp
  from np_pad_reflect_length [OF assms(1) h h]
  obtain p where p: "np_pad_reflect arr (w div 2) (w div 2) = Inr p"
    and lp: "length p = length arr + nat (w div 2) + nat (w div 2)" by blast
  have lk: "length (uniform_kernel w) = nat w" by (simp add: uniform_kernel_def)
  have kne: "uniform_kernel w \<noteq> []" using assms(2) by (simp add: uniform_kernel_def)
  have "1 \<le> length arr" using assms(1) by (cases arr) simp_all
  then have fit: "length (uniform_kernel w) \<le> length p"
    using lp lk assms(2) by (simp add: nat_le_iff)
  from np_convolve_valid_length [OF kne fit]
  obtain c where c: "np_convolve_valid p (uniform_kernel w) = Inr c"
    and lc: "length c = length p - length (uniform_kernel w) + 1" by blast
  have "moving_average arr w = Inr (butlast c)"
    by (simp add: moving_average_def p c)
  moreover have "int (length (butlast c)) = int (length arr) + 2 * (w div 2) - w"
    using lc lp lk fit assms(2) h by simp
  ultimately show ?thesis by blast
qed

text \<open>
  Claim C3, as the code has it. For a non-empty \<open>arr\<close> and a positive \<open>window_size\<close>
  (numpy's reflect padding is defined for every such pair), \<open>moving_average\<close> returns
  a sequence of length \<open>len(arr) + 2 * (window_size // 2) - window_size + 1 - 1\<close>. That is
  \<open>len(arr) - 1\<close> for an odd window and \<open>len(arr)\<close> for an even one (not
  \<open>len(arr) - 2\<close>).
\<close>

theorem moving_average_result_length:
  assumes "arr \<noteq> []" and "0 < window_size"
  shows "\<exists>res. moving_average arr window_size = Inr res
           \<and> int (length res) = int (length arr) + 2 * (window_size div 2) - window_size + 1 - 1
           \<and> (odd window_size \<longrightarrow> int (length res) = int (length arr) - 1)
           \<and> (even window_size \<longrightarrow> length res = length arr)"
proof -
  from moving_average_length [OF assms]
  obtain res where r: "moving_average arr window_size = Inr res"
    and l: "int (length res) = int (length arr) + 2 * (window_size div 2) - window_size"
    by blast
  have "odd window_size \<longrightarrow> int (length res) = int (length arr) - 1"
    using l by presburger
  moreover have "even window_size \<longrightarrow> length res = length arr"
    using l by presburger
  ultimately show ?thesis using r l by simp
qed

theorem moving_average_result_length_witness:
  "[1, 2, 3, 4, 5 :: rat] \<noteq> [] \<and> (0 :: int) < 3
   \<and> (\<exists>res. moving_average [1, 2, 3, 4, 5] 3 = Inr res \<and> int (length res) = 4)"
  using moving_average_result_length [of "[1, 2, 3, 4, 5]" 3] by simp

text \<open>
  The even case of claim C3 as the specification words it (\<open>len(arr) - 2\<close>) fails:
  for \<open>arr = [1, 2, 3]\<close> and \<open>window_size = 2\<close> the padded array is \<open>[2, 1, 2, 3, 2]\<close>, the
  valid convolution has four entries and the result has three, as many as \<open>arr\<close>.
\<close>

theorem moving_average_even_counterexample:
  "moving_average [1, 2, 3] 2 = Inr [3 / 2, 3 / 2, 5 / 2]
   \<and> even (2 :: int)
   \<and> int (length [3 / 2, 3 / 2, 5 / 2 :: rat]) \<noteq> int (length [1, 2, 3 :: rat]) - 2"
  using moving_average_1_2_3 by simp

text \<open>
  Claim C4, as the code has it. \<open>moving_average([1, 2, 3, 4, 5], 3)\<close> pads the input
  to \<open>[2, 1, 2, 3, 4, 5, 4]\<close> and convolves it in valid mode with three copies of the
  float64 nearest to \<open>1/3\<close>. In float64 the convolution is
  \<open>[1.6666666666666665, 2.0, 3.0, 3.9999999999999996, 4.333333333333333]\<close>, and the
  function returns its first four entries. The second and third are exactly \<open>2\<close> and
  \<open>3\<close>; the first is just below \<open>5/3\<close> and the last is \<open>4 - 2^-51\<close>; each of the four
  is within \<open>2^-51\<close> of \<open>5/3\<close>, \<open>2\<close>, \<open>3\<close>, \<open>4\<close>.
\<close>

theorem moving_average_scenario:
  "np_pad_reflect [1, 2, 3, 4, 5 :: rat] (3 div 2) (3 div 2) = Inr [2, 1, 2, 3, 4, 5, 4]
   \<and> uniform_kernel 3 = [6004799503160661 / 2 ^ 54, 6004799503160661 / 2 ^ 54,
                          6004799503160661 / 2 ^ 54]
   \<and> np_convolve_valid [2, 1, 2, 3, 4, 5, 4] (uniform_kernel 3)
       = Inr [3752999689475413 / 2 ^ 51, 2, 3, 4 - 1 / 2 ^ 51, 4878899596318037 / 2 ^ 50]
   \<and> moving_average [1, 2, 3, 4, 5] 3 = Inr [3752999689475413 / 2 ^ 51, 2, 3, 4 - 1 / 2 ^ 51]
   \<and> list_all2 (\<lambda>x y. \<bar>x - y\<bar> \<le> 1 / 2 ^ 51)
         [3752999689475413 / 2 ^ 51, 2, 3, 4 - 1 / 2 ^ 51] [5 / 3, 2, 3, 4 :: rat]"
proof -
  have conv: "np_convolve_valid [2, 1, 2, 3, 4, 5, 4] (uniform_kernel 3)
       = Inr [3752999689475413 / 2 ^ 51, 2, 3, 4 - 1 / 2 ^ 51, 4878899596318037 / 2 ^ 50]"
    by (simp only: uniform_kernel_3 convolve_1_to_5)
  have near: "list_all2 (\<lambda>x y. \<bar>x - y\<bar> \<le> 1 / 2 ^ 51)
         [3752999689475413 / 2 ^ 51, 2, 3, 4 - 1 / 2 ^ 51] [5 / 3, 2, 3, 4 :: rat]"
    by simp
  from pad_1_to_5 uniform_kernel_3 conv moving_average_1_to_5 near show ?thesis by blast
qed

text \<open>
  Claim C4 as the specification words it fails: the value returned is not
  \<open>[5/3, 2, 3, 4]\<close>; its first entry is below \<open>5/3\<close> and its last entry is below \<open>4\<close>.
\<close>

theorem moving_average_scenario_counterexample:
  "moving_average [1, 2, 3, 4, 5] 3 \<noteq> Inr [5 / 3, 2, 3, 4]"
  using moving_average_1_to_5 by simp

section \<open>Properties of the road-condition label\<close>

lemma col_label_columns:
  "col label_columns [ts, gl, gr, rl, rr, bl, br] ''good_road_left'' = gl"
  "col label_columns [ts, gl, gr, rl, rr, bl, br] ''good_road_right'' = gr"
  "col label_columns [ts, gl, gr, rl, rr, bl, br] ''regular_road_left'' = rl"
  "col label_columns [ts, gl, gr, rl, rr, bl, br] ''regular_road_right'' = rr"
  "col label_columns [ts, gl, gr, rl, rr, bl, br] ''bad_road_left'' = bl"
  "col label_columns [ts, gl, gr, rl, rr, bl, br] ''bad_road_right'' = br"
  by (simp_all add: col_def label_columns_def)

lemma sql_or_true: "(sql_or a b = Some True) = (a = Some True \<or> b = Some True)"
  by (cases "(a, b)" rule: sql_or.cases) auto

text \<open>
  Claim C1. A row of the label table (line 33 selects \<open>timestep\<close> and the six
  indicators, in this order) gets \<open>bad\<close> when \<open>bad_road_left == 1\<close> or
  \<open>bad_road_right == 1\<close> holds, else \<open>regular\<close> when \<open>regular_road_left == 1\<close> or
  \<open>regular_road_right == 1\<close> holds, else \<open>good\<close>, whatever the six cells are (null
  and text included); the value is one of the three; all indicators 0 give \<open>good\<close>; and
  the row \<open>bad = (0, 1)\<close>, \<open>regular = (1, 0)\<close>, \<open>good = (0, 0)\<close> gives \<open>bad\<close>.
\<close>

theorem road_condition_total:
  "cond label_columns [ts, gl, gr, rl, rr, bl, br] =
     (if eq_lit bl 1 = Some True \<or> eq_lit br 1 = Some True then Str ''bad''
      else if eq_lit rl 1 = Some True \<or> eq_lit rr 1 = Some True then Str ''regular''
      else Str ''good'')
   \<and> cond label_columns [ts, gl, gr, rl, rr, bl, br] \<in> {Str ''good'', Str ''regular'', Str ''bad''}
   \<and> cond label_columns [ts, Num 0, Num 0, Num 0, Num 0, Num 0, Num 0] = Str ''good''
   \<and> cond label_columns [ts, Num 0, Num 0, Num 1, Num 0, Num 0, Num 1] = Str ''bad''"
  by (simp add: cond_def col_label_columns sql_or_true eq_lit_def to_integer_def)

text \<open>
  Claim C10. Two label rows that agree on the two \<open>bad\<close> and the two \<open>regular\<close>
  indicators get the same \<open>road_condition\<close>, whatever their other cells are: the
  \<open>good\<close> indicators are never read.
\<close>

theorem road_condition_ignores_good:
  assumes "col cols r ''bad_road_left'' = col cols' r' ''bad_road_left''"
    and "col cols r ''bad_road_right'' = col cols' r' ''bad_road_right''"
    and "col cols r ''regular_road_left'' = col cols' r' ''regular_road_left''"
    and "col cols r ''regular_road_right'' = col cols' r' ''regular_road_right''"
  shows "cond cols r = cond cols' r'"
  using assms by (simp add: cond_def)

theorem road_condition_ignores_good_witness:
  "cond label_columns [Long 0, Num 1, Num 0, Num 1, Num 0, Num 0, Num 0]
     = cond label_columns [Long 0, Num 0, Num 1, Num 1, Num 0, Num 0, Num 0]"
  using road_condition_ignores_good
    [of label_columns "[Long 0, Num 1, Num 0, Num 1, Num 0, Num 0, Num 0]"
        label_columns "[Long 0, Num 0, Num 1, Num 1, Num 0, Num 0, Num 0]"]
  by (simp add: col_label_columns)

section \<open>Properties of the windowed approximation\<close>

lemma lower_literals:
  "lower ''timestep'' = ''timestep''"
  "lower ''group_by'' = ''group_by''"
  "lower ''latitude'' = ''latitude''"
  "lower ''longitude'' = ''longitude''"
  "lower ''speed'' = ''speed''"
  "lower ''road_condition'' = ''road_condition''"
  "lower ''timestamp_L'' = ''timestamp_l''"
  "lower ''timestamp_R'' = ''timestamp_r''"
  "lower ''timestamp_gps_L'' = ''timestamp_gps_l''"
  "lower ''timestamp_gps_R'' = ''timestamp_gps_r''"
  by (simp_all add: lower_def lower_char_def)

lemma same_name_refl: "same_name a a"
  by (simp add: same_name_def)

lemma same_name_sym: "same_name a b = same_name b a"
  by (auto simp: same_name_def)


lemma col_map: "c \<in> set cols \<Longrightarrow> col cols (map f cols) c = f c"
  by (simp add: col_def map_of_zip_map)

lemma col_missing: "c \<notin> set cols \<Longrightarrow> col cols r c = Null"
proof -
  assume "c \<notin> set cols"
  then have "c \<notin> fst ` set (zip cols r)" by (auto dest: set_zip_leftD)
  then have "map_of (zip cols r) c = None" by (simp add: map_of_eq_None_iff)
  then show ?thesis by (simp add: col_def)
qed


lemma columns_withColumn:
  "columns (withColumn name vals df) =
     (if list_ex (same_name name) (columns df)
      then map (\<lambda>c. if same_name name c then name else c) (columns df)
      else columns df @ [name])"
  by (simp add: withColumn_def Let_def)

lemma name_in_columns_withColumn: "name \<in> set (columns (withColumn name vals df))"
  by (auto simp: columns_withColumn list_ex_iff)

lemma other_in_columns_withColumn:
  "\<not> same_name name c \<Longrightarrow>
   (c \<in> set (columns (withColumn name vals df))) = (c \<in> set (columns df))"
  by (auto simp: columns_withColumn same_name_refl)

lemma rows_withColumn:
  "rows (withColumn name vals df) =
     map2 (\<lambda>v r. map (\<lambda>c. if c = name then v else col (columns df) r c)
                    (columns (withColumn name vals df))) vals (rows df)"
  by (simp add: withColumn_def Let_def)

lemma col_withColumn_row:
  assumes "c = name \<or> \<not> same_name name c"
  shows "col (columns (withColumn name vals df))
       (map (\<lambda>c. if c = name then v else col (columns df) r c) (columns (withColumn name vals df))) c
   = (if c = name then v else col (columns df) r c)"
proof (cases "c \<in> set (columns (withColumn name vals df))")
  case True
  then show ?thesis by (simp add: col_map)
next
  case False
  then have ne: "c \<noteq> name" using name_in_columns_withColumn by metis
  then have "\<not> same_name name c" using assms by simp
  then have "c \<notin> set (columns df)" using False by (simp add: other_in_columns_withColumn)
  with False ne show ?thesis by (simp add: col_missing)
qed

lemma columns_with_group_by:
  "columns (with_group_by ts df) = columns (withColumn ''group_by'' [] df)"
  by (simp add: with_group_by_def columns_withColumn)

lemma columns_with_group_by_indep: "columns (with_group_by ts df) = columns (with_group_by ts' df)"
  by (simp add: columns_with_group_by)



lemma approximate_ts_alt:
  "approximate_ts df features timesteps label =
     (if resolves (columns df) ''timestep''
      then Option.bind (groupBy_agg ''group_by'' (aggregates features label) (with_group_by timesteps df))
             (orderBy ''timestep'')
      else None)"
  by (simp add: approximate_ts_def with_group_by_def aggregates_def Let_def)

lemma out_names_aggregates:
  "map out_name (aggregates features label) =
     ''timestep'' # (if label then [''road_condition''] else []) @ [''latitude'', ''longitude'']
       @ map out_name features"
  by (simp add: aggregates_def with_alias_def)

lemma approximate_ts_accepted:
  assumes "accepted df features label"
  shows "approximate_ts df features timesteps label =
    Some \<lparr>columns = out_columns features label,
          rows = sort_key (\<lambda>r. as_num (col (out_columns features label) r ''timestep''))
                   (map (\<lambda>k. k # map (\<lambda>a. eval_agg a (columns (with_group_by timesteps df))
                                          (window_rows (with_group_by timesteps df) k))
                                    (aggregates features label))
                        (window_keys (with_group_by timesteps df)))\<rparr>"
  using assms columns_with_group_by_indep [of timesteps df 1]
  by (simp add: approximate_ts_alt accepted_def groupBy_agg_def orderBy_def out_columns_def
        window_rows_def window_keys_def)

lemma approximate_ts_Some_iff:
  "(\<exists>t. approximate_ts df features timesteps label = Some t) = accepted df features label"
  using columns_with_group_by_indep [of timesteps df 1]
  by (auto simp: approximate_ts_alt accepted_def groupBy_agg_def orderBy_def bind_eq_Some_conv
        split: if_splits)




























lemma accepted_four_columns:
  "columns df = [''timestep'', ''latitude'', ''longitude'', ''road_condition'']
     \<Longrightarrow> accepted df [] label"
  by (simp add: accepted_def columns_with_group_by columns_withColumn resolves_def aggregates_def
        with_alias_def F_max_def F_avg_def F_mode_def same_name_def lower_literals)









text \<open>
  Claim C6, as the code has it. The table returned by \<open>approximate_ts\<close> keeps the
  grouping column: its columns are \<open>group_by\<close>, \<open>timestep\<close>, \<open>road_condition\<close> (when
  \<open>label\<close> is true), \<open>latitude\<close>, \<open>longitude\<close> and the feature columns, in this order.
  Nothing in the function drops or deselects \<open>group_by\<close>.
\<close>

theorem approximate_ts_columns:
  assumes "approximate_ts df features timesteps label = Some t"
  shows "columns t = ''group_by'' # ''timestep'' # (if label then [''road_condition''] else [])
                       @ [''latitude'', ''longitude''] @ map out_name features"
proof -
  have "accepted df features label" using assms approximate_ts_Some_iff by blast
  from approximate_ts_accepted [OF this, of timesteps] assms
  show ?thesis by (auto simp: out_columns_def out_names_aggregates)
qed

theorem approximate_ts_columns_witness:
  "\<exists>t. approximate_ts sample_table [] 2 True = Some t
     \<and> columns t = [''group_by'', ''timestep'', ''road_condition'', ''latitude'', ''longitude'']"
proof -
  have "accepted sample_table [] True"
    by (rule accepted_four_columns) (simp add: sample_table_def)
  then obtain t where t: "approximate_ts sample_table [] 2 True = Some t"
    using approximate_ts_Some_iff by blast
  from approximate_ts_columns [OF t] t show ?thesis by simp
qed

text \<open>
  Claim C6 as the specification words it fails: on the sample table the result has
  the column \<open>group_by\<close>.
\<close>

theorem approximate_ts_group_by_counterexample:
  "map_option columns (approximate_ts sample_table [] 2 True)
     = Some [''group_by'', ''timestep'', ''road_condition'', ''latitude'', ''longitude'']"
  by code_simp

text \<open>
  Claim C9, as the code has it. \<open>approximate_ts\<close> does not validate \<open>timesteps\<close>:
  for \<open>timesteps \<le> 0\<close> it returns a result table, with the same columns, on every
  input on which it returns one for some other \<open>timesteps\<close>.
\<close>

theorem approximate_ts_no_validation:
  assumes "timesteps \<le> 0"
    and "approximate_ts df features timesteps' label = Some t'"
  shows "\<exists>t. approximate_ts df features timesteps label = Some t \<and> columns t = columns t'"
proof -
  have "accepted df features label" using assms(2) approximate_ts_Some_iff by blast
  from approximate_ts_accepted [OF this, of timesteps] approximate_ts_accepted [OF this, of timesteps']
    assms(2)
  show ?thesis by auto
qed

theorem approximate_ts_no_validation_witness:
  "(- 2 :: int) \<le> 0
   \<and> (\<exists>t'. approximate_ts sample_table [] 2 True = Some t'
        \<and> (\<exists>t. approximate_ts sample_table [] (- 2) True = Some t \<and> columns t = columns t'))"
proof -
  have "accepted sample_table [] True"
    by (rule accepted_four_columns) (simp add: sample_table_def)
  then obtain t' where t': "approximate_ts sample_table [] 2 True = Some t'"
    using approximate_ts_Some_iff by blast
  from approximate_ts_no_validation [of "- 2" sample_table "[]" 2 True t', OF _ t'] t'
  show ?thesis by simp
qed

text \<open>
  Claim C9 as the specification words it fails: with \<open>timesteps = -2\<close> the sample
  table is grouped by the truncated quotients \<open>0, 0, -1\<close> and a table of two rows is
  returned, no error.
\<close>

theorem approximate_ts_negative_counterexample:
  "approximate_ts sample_table [] (- 2) True =
     Some \<lparr>columns = [''group_by'', ''timestep'', ''road_condition'', ''latitude'', ''longitude''],
           rows = [[Long 0, Long 1, Str ''bad'', Num 2, Num 3],
                   [Long (- 1), Long 2, Str ''good'', Num 5, Num 6]]\<rparr>"
  by code_simp




section \<open>Properties of the alignment and merge\<close>

lemma dataset_preparation_SomeD:
  assumes "dataset_preparation left_csv right_csv labels_csv = Some t"
  obtains b2 b4 sides joined srt where
    "select label_columns (with_timestep labels_csv) = Some b2"
    "select [''timestep'', ''road_condition'']
       (withColumn ''road_condition'' (map (cond (columns b2)) (rows b2)) b2) = Some b4"
    "join_left shared_fields
       (toDF (left_colnames (columns (with_timestep left_csv))) (with_timestep left_csv))
       (toDF (right_colnames (columns (with_timestep right_csv))) (with_timestep right_csv)) = Some sides"
    "join_left [''timestep''] sides b4 = Some joined"
    "orderBy ''timestep'' joined = Some srt"
    "t = drop_columns timestamp_columns srt"
  using assms by (auto simp: dataset_preparation_def Let_def bind_eq_Some_conv)

lemma select_SomeD:
  "select names df = Some d \<Longrightarrow>
     columns d = names \<and> rows d = map (\<lambda>r. map (col (columns df) r) names) (rows df)"
  by (auto simp: select_def split: if_splits)

lemma join_left_SomeD:
  "join_left keys l r = Some d \<Longrightarrow>
     columns d = keys @ filter (\<lambda>c. c \<notin> set keys) (columns l) @ filter (\<lambda>c. c \<notin> set keys) (columns r)
     \<and> rows d = concat (map (join_row keys l r) (rows l))"
  by (auto simp: join_left_def split: if_splits)

lemma orderBy_SomeD:
  "orderBy name df = Some d \<Longrightarrow>
     columns d = columns df
     \<and> rows d = sort_key (\<lambda>r. as_num (col (columns df) r name)) (rows df)"
  by (auto simp: orderBy_def split: if_splits)

lemma columns_drop_columns:
  "columns (drop_columns names df) = filter (\<lambda>c. \<not> list_ex (same_name c) names) (columns df)"
  by (simp add: drop_columns_def Let_def)

lemma rows_drop_columns:
  "rows (drop_columns names df) =
     map (\<lambda>r. map (col (columns df) r) (filter (\<lambda>c. \<not> list_ex (same_name c) names) (columns df)))
         (rows df)"
  by (simp add: drop_columns_def Let_def)

lemma columns_with_timestep:
  "columns (with_timestep f) =
     (if list_ex (same_name ''timestep'') (header f)
      then map (\<lambda>c. if same_name ''timestep'' c then ''timestep'' else c) (header f)
      else header f @ [''timestep''])"
  by (simp add: with_timestep_def columns_withColumn read_csv_def)

lemma lower_label_literals:
  "lower ''good_road_left'' = ''good_road_left''"
  "lower ''good_road_right'' = ''good_road_right''"
  "lower ''regular_road_left'' = ''regular_road_left''"
  "lower ''regular_road_right'' = ''regular_road_right''"
  "lower ''bad_road_left'' = ''bad_road_left''"
  "lower ''bad_road_right'' = ''bad_road_right''"
  by (simp_all add: lower_def lower_char_def)

lemma not_dropped_literals:
  "\<not> list_ex (same_name ''timestep'') timestamp_columns"
  "\<not> list_ex (same_name ''latitude'') timestamp_columns"
  "\<not> list_ex (same_name ''longitude'') timestamp_columns"
  "\<not> list_ex (same_name ''speed'') timestamp_columns"
  "\<not> list_ex (same_name ''road_condition'') timestamp_columns"
  by (simp_all add: timestamp_columns_def same_name_def lower_literals)

lemma suffix_L_not_shared: "c @ ''_L'' \<notin> set shared_fields"
proof
  assume "c @ ''_L'' \<in> set shared_fields"
  then have "last (c @ ''_L'') \<in> last ` set shared_fields" by (rule imageI)
  then show False by (simp add: shared_fields_def)
qed

lemma suffix_R_not_shared: "c @ ''_R'' \<notin> set shared_fields"
proof
  assume "c @ ''_R'' \<in> set shared_fields"
  then have "last (c @ ''_R'') \<in> last ` set shared_fields" by (rule imageI)
  then show False by (simp add: shared_fields_def)
qed

lemma filter_left_colnames:
  "filter (\<lambda>c. c \<notin> set shared_fields) (left_colnames cols)
     = map (\<lambda>c. c @ ''_L'') (filter (\<lambda>c. c \<notin> set shared_fields) cols)"
  by (induction cols) (simp_all add: left_colnames_def suffix_L_not_shared)

lemma filter_right_colnames:
  "filter (\<lambda>c. c \<notin> set shared_fields) (right_colnames cols)
     = map (\<lambda>c. c @ ''_R'') (filter (\<lambda>c. c \<notin> set shared_fields) cols)"
  by (induction cols) (simp_all add: right_colnames_def suffix_R_not_shared)

lemma filter_shared_renamed:
  "filter (\<lambda>c. c \<notin> set shared_fields)
          (map (\<lambda>c. if same_name ''timestep'' c then ''timestep'' else c) xs)
     = filter (\<lambda>c. c \<notin> set shared_fields \<and> \<not> same_name ''timestep'' c) xs"
  by (induction xs) (simp_all add: shared_fields_def)

lemma filter_shared_appended:
  "\<not> list_ex (same_name ''timestep'') xs \<Longrightarrow>
   filter (\<lambda>c. c \<notin> set shared_fields) (xs @ [''timestep''])
     = filter (\<lambda>c. c \<notin> set shared_fields \<and> \<not> same_name ''timestep'' c) xs"
  by (induction xs) (simp_all add: shared_fields_def)

lemma filter_shared_with_timestep:
  "filter (\<lambda>c. c \<notin> set shared_fields) (columns (with_timestep f))
     = filter (\<lambda>c. c \<notin> set shared_fields \<and> \<not> same_name ''timestep'' c) (header f)"
proof (cases "list_ex (same_name ''timestep'') (header f)")
  case True
  then show ?thesis by (simp add: columns_with_timestep filter_shared_renamed)
next
  case False
  then have "columns (with_timestep f) = header f @ [''timestep'']"
    by (simp add: columns_with_timestep)
  then show ?thesis by (simp only: filter_shared_appended [OF False])
qed

lemma filter_timestep_others:
  "filter (\<lambda>c. c \<notin> set [''timestep'']) (filter (\<lambda>c. c \<notin> set shared_fields) xs)
     = filter (\<lambda>c. c \<notin> set shared_fields) xs"
  by (induction xs) (auto simp: shared_fields_def)

lemma dataset_preparation_columns_raw:
  assumes "dataset_preparation left_csv right_csv labels_csv = Some t"
  shows "columns t = shared_fields
           @ filter (\<lambda>n. \<not> list_ex (same_name n) timestamp_columns)
               (map (\<lambda>c. c @ ''_L'')
                  (filter (\<lambda>c. c \<notin> set shared_fields \<and> \<not> same_name ''timestep'' c) (header left_csv)))
           @ filter (\<lambda>n. \<not> list_ex (same_name n) timestamp_columns)
               (map (\<lambda>c. c @ ''_R'')
                  (filter (\<lambda>c. c \<notin> set shared_fields \<and> \<not> same_name ''timestep'' c) (header right_csv)))
           @ [''road_condition'']"
proof -
  from assms obtain b2 b4 sides joined srt where
    b4: "select [''timestep'', ''road_condition'']
       (withColumn ''road_condition'' (map (cond (columns b2)) (rows b2)) b2) = Some b4"
    and sides: "join_left shared_fields
       (toDF (left_colnames (columns (with_timestep left_csv))) (with_timestep left_csv))
       (toDF (right_colnames (columns (with_timestep right_csv))) (with_timestep right_csv)) = Some sides"
    and joined: "join_left [''timestep''] sides b4 = Some joined"
    and srt: "orderBy ''timestep'' joined = Some srt"
    and t: "t = drop_columns timestamp_columns srt"
    by (rule dataset_preparation_SomeD)
  let ?lo = "filter (\<lambda>c. c \<notin> set shared_fields) (left_colnames (columns (with_timestep left_csv)))"
  let ?ro = "filter (\<lambda>c. c \<notin> set shared_fields) (right_colnames (columns (with_timestep right_csv)))"
  have cs: "columns sides = shared_fields @ ?lo @ ?ro"
    using join_left_SomeD [OF sides] by (simp add: toDF_def)
  have cb: "columns b4 = [''timestep'', ''road_condition'']"
    using select_SomeD [OF b4] by simp
  have "filter (\<lambda>c. c \<notin> set [''timestep'']) ?lo = ?lo"
    by (rule filter_timestep_others)
  moreover have "filter (\<lambda>c. c \<notin> set [''timestep'']) ?ro = ?ro"
    by (rule filter_timestep_others)
  ultimately have cj: "columns joined = shared_fields @ ?lo @ ?ro @ [''road_condition'']"
    using join_left_SomeD [OF joined] by (simp add: cs cb shared_fields_def)
  have "columns srt = columns joined" using orderBy_SomeD [OF srt] by simp
  then have "columns t = shared_fields
      @ filter (\<lambda>n. \<not> list_ex (same_name n) timestamp_columns) ?lo
      @ filter (\<lambda>n. \<not> list_ex (same_name n) timestamp_columns) ?ro
      @ [''road_condition'']"
    using not_dropped_literals by (simp add: t columns_drop_columns cj shared_fields_def)
  then show ?thesis
    by (simp only: filter_left_colnames filter_right_colnames filter_shared_with_timestep)
qed

lemma length_filter_le_one:
  "distinct (map f xs) \<Longrightarrow> (\<forall>x \<in> set xs. P x \<longrightarrow> f x = a) \<Longrightarrow> length (filter P xs) \<le> 1"
proof (induction xs)
  case Nil
  then show ?case by simp
next
  case (Cons x xs)
  show ?case
  proof (cases "P x")
    case True
    then have "f x = a" using Cons.prems(2) by simp
    have "\<forall>y \<in> set xs. \<not> P y"
    proof
      fix y assume y: "y \<in> set xs"
      show "\<not> P y"
      proof
        assume "P y"
        then have "f y = a" using Cons.prems(2) y by simp
        then have "f x \<in> f ` set xs" using \<open>f x = a\<close> y by force
        then show False using Cons.prems(1) by simp
      qed
    qed
    then have "filter P xs = []" by (simp add: filter_empty_conv)
    with True show ?thesis by simp
  next
    case False
    then show ?thesis using Cons by simp
  qed
qed

lemma keys_matchD:
  "keys_match keys lcols l rcols r \<Longrightarrow> k \<in> set keys \<Longrightarrow> col rcols r k = col lcols l k"
  by (auto simp: keys_match_def list_all_iff)

lemma length_join_row:
  assumes "k \<in> set keys"
    and "distinct (map (\<lambda>r. col (columns right) r k) (rows right))"
  shows "length (join_row keys left right l) = 1"
proof -
  let ?ms = "filter (keys_match keys (columns left) l (columns right)) (rows right)"
  have "length ?ms \<le> 1"
    using assms(2)
  proof (rule length_filter_le_one)
    show "\<forall>r \<in> set (rows right). keys_match keys (columns left) l (columns right) r
            \<longrightarrow> col (columns right) r k = col (columns left) l k"
      using assms(1) by (auto dest: keys_matchD)
  qed
  then have "?ms = [] \<or> length ?ms = 1" by (cases ?ms) auto
  then show ?thesis by (auto simp: join_row_def Let_def)
qed

lemma length_concat_singletons:
  "(\<forall>x \<in> set xs. length (f x) = 1) \<Longrightarrow> length (concat (map f xs)) = length xs"
  by (induction xs) simp_all

lemma join_left_length:
  assumes "join_left keys left right = Some d"
    and "k \<in> set keys"
    and "distinct (map (\<lambda>r. col (columns right) r k) (rows right))"
  shows "length (rows d) = length (rows left)"
  using join_left_SomeD [OF assms(1)] length_join_row [OF assms(2) assms(3)]
  by (simp add: length_concat_singletons)

lemma withColumn_values:
  "map (\<lambda>r. col (columns (withColumn name vals df)) r name) (rows (withColumn name vals df))
     = take (length (rows df)) vals"
proof -
  have "map (\<lambda>r. col (columns (withColumn name vals df)) r name) (rows (withColumn name vals df))
          = map fst (zip vals (rows df))"
    by (simp add: rows_withColumn col_withColumn_row split_def)
  also have "\<dots> = take (length (rows df)) vals"
    by (simp add: map_fst_zip_take min_def)
  finally show ?thesis .
qed

lemma withColumn_other_values:
  "\<not> same_name name c \<Longrightarrow> length vals = length (rows df) \<Longrightarrow>
   map (\<lambda>r. col (columns (withColumn name vals df)) r c) (rows (withColumn name vals df))
     = map (\<lambda>r. col (columns df) r c) (rows df)"
proof -
  assume n: "\<not> same_name name c" and l: "length vals = length (rows df)"
  then have c: "c \<noteq> name" using same_name_refl by metis
  have "map (\<lambda>r. col (columns (withColumn name vals df)) r c) (rows (withColumn name vals df))
          = map (\<lambda>(v, r). col (columns df) r c) (zip vals (rows df))"
    using c n by (simp add: rows_withColumn col_withColumn_row split_def)
  also have "\<dots> = map (\<lambda>r. col (columns df) r c) (map snd (zip vals (rows df)))"
    by (simp add: split_def comp_def)
  also have "\<dots> = map (\<lambda>r. col (columns df) r c) (rows df)"
    using l by simp
  finally show ?thesis .
qed

lemma col_renamed:
  "(\<forall>c. (ren c = k) = (c = k)) \<Longrightarrow> col (map ren cols) r k = col cols r k"
proof (induction cols arbitrary: r)
  case Nil
  then show ?case by (simp add: col_def)
next
  case (Cons a cols)
  show ?case
  proof (cases r)
    case Nil
    then show ?thesis by (simp add: col_def)
  next
    case (Cons v vs)
    have eq: "(ren a = k) = (a = k)" using Cons.prems by blast
    have ih: "col (map ren cols) vs k = col cols vs k" using Cons.IH Cons.prems by blast
    show ?thesis
    proof (cases "a = k")
      case True
      then have "ren a = k" using eq by simp
      then show ?thesis using True Cons by (simp add: col_def)
    next
      case False
      then have "ren a \<noteq> k" using eq by simp
      then show ?thesis using False Cons ih by (simp add: col_def)
    qed
  qed
qed

lemma col_left_colnames_timestep:
  "col (left_colnames cols) r ''timestep'' = col cols r ''timestep''"
  unfolding left_colnames_def
proof (rule col_renamed, rule allI)
  fix c
  have "c @ ''_L'' \<noteq> ''timestep''" using suffix_L_not_shared [of c] by (simp add: shared_fields_def)
  then show "((if c \<notin> set shared_fields then c @ ''_L'' else c) = ''timestep'') = (c = ''timestep'')"
    by (auto simp: shared_fields_def)
qed

lemma col_right_colnames_timestep:
  "col (right_colnames cols) r ''timestep'' = col cols r ''timestep''"
  unfolding right_colnames_def
proof (rule col_renamed, rule allI)
  fix c
  have "c @ ''_R'' \<noteq> ''timestep''" using suffix_R_not_shared [of c] by (simp add: shared_fields_def)
  then show "((if c \<notin> set shared_fields then c @ ''_R'' else c) = ''timestep'') = (c = ''timestep'')"
    by (auto simp: shared_fields_def)
qed

lemma with_timestep_values:
  "map (\<lambda>r. col (columns (with_timestep f)) r ''timestep'') (rows (with_timestep f))
     = take (length (concat (partitions f)))
         (map Long (monotonically_increasing_id (map length (partitions f))))"
  by (simp add: with_timestep_def withColumn_values) (simp add: read_csv_def)

lemma select_values:
  assumes "select names df = Some d" and "k \<in> set names"
  shows "map (\<lambda>r. col (columns d) r k) (rows d) = map (\<lambda>r. col (columns df) r k) (rows df)"
  using select_SomeD [OF assms(1)] assms(2) by (simp add: comp_def col_map)

lemma labels_timestep_values:
  assumes "select label_columns wb = Some b2"
    and "select [''timestep'', ''road_condition'']
           (withColumn ''road_condition'' (map (cond (columns b2)) (rows b2)) b2) = Some b4"
  shows "map (\<lambda>r. col (columns b4) r ''timestep'') (rows b4)
           = map (\<lambda>r. col (columns wb) r ''timestep'') (rows wb)"
proof -
  let ?b3 = "withColumn ''road_condition'' (map (cond (columns b2)) (rows b2)) b2"
  have "map (\<lambda>r. col (columns b4) r ''timestep'') (rows b4)
          = map (\<lambda>r. col (columns ?b3) r ''timestep'') (rows ?b3)"
    using assms(2) by (rule select_values) simp
  also have "\<dots> = map (\<lambda>r. col (columns b2) r ''timestep'') (rows b2)"
    by (rule withColumn_other_values) (simp_all add: same_name_def lower_literals)
  also have "\<dots> = map (\<lambda>r. col (columns wb) r ''timestep'') (rows wb)"
    using assms(1) by (rule select_values) (simp add: label_columns_def)
  finally show ?thesis .
qed

lemma length_monotonically_increasing_id:
  "length (monotonically_increasing_id sizes) = sum_list sizes"
proof -
  have "map (\<lambda>x. length (case x of (p, n) \<Rightarrow> map (\<lambda>i. int p * 2 ^ 33 + int i) [0 ..< n]))
            (zip [0 ..< length sizes] sizes)
          = map snd (zip [0 ..< length sizes] sizes)"
    by (simp add: split_def)
  then show ?thesis
    by (simp add: monotonically_increasing_id_def length_concat comp_def)
qed

lemma length_rows_with_timestep:
  "length (rows (with_timestep f)) = length (concat (partitions f))"
  by (simp add: with_timestep_def rows_withColumn length_monotonically_increasing_id
        length_concat read_csv_def)

lemma distinct_take_Long:
  "distinct ids \<Longrightarrow> distinct (take n (map Long ids))"
  by (simp add: distinct_map inj_on_def)

lemma dataset_preparation_rows_raw:
  assumes "dataset_preparation left_csv right_csv labels_csv = Some t"
    and "distinct (monotonically_increasing_id (map length (partitions right_csv)))"
    and "distinct (monotonically_increasing_id (map length (partitions labels_csv)))"
  shows "length (rows t) = length (concat (partitions left_csv))"
    and "sorted (map (\<lambda>r. as_num (col (columns t) r ''timestep'')) (rows t))"
proof -
  let ?wl = "with_timestep left_csv" and ?wr = "with_timestep right_csv"
  let ?dl = "toDF (left_colnames (columns ?wl)) ?wl"
  let ?dr = "toDF (right_colnames (columns ?wr)) ?wr"
  from assms(1) obtain b2 b4 sides joined srt where
    b2: "select label_columns (with_timestep labels_csv) = Some b2"
    and b4: "select [''timestep'', ''road_condition'']
       (withColumn ''road_condition'' (map (cond (columns b2)) (rows b2)) b2) = Some b4"
    and sides: "join_left shared_fields ?dl ?dr = Some sides"
    and joined: "join_left [''timestep''] sides b4 = Some joined"
    and srt: "orderBy ''timestep'' joined = Some srt"
    and t: "t = drop_columns timestamp_columns srt"
    by (rule dataset_preparation_SomeD)
  have "map (\<lambda>r. col (columns ?dr) r ''timestep'') (rows ?dr)
          = map (\<lambda>r. col (columns ?wr) r ''timestep'') (rows ?wr)"
    by (simp add: toDF_def col_right_colnames_timestep)
  then have dr: "distinct (map (\<lambda>r. col (columns ?dr) r ''timestep'') (rows ?dr))"
    using assms(2) by (simp only: with_timestep_values distinct_take_Long)
  have "distinct (map (\<lambda>r. col (columns (with_timestep labels_csv)) r ''timestep'')
                      (rows (with_timestep labels_csv)))"
    using assms(3) by (simp only: with_timestep_values distinct_take_Long)
  then have db: "distinct (map (\<lambda>r. col (columns b4) r ''timestep'') (rows b4))"
    by (simp only: labels_timestep_values [OF b2 b4])
  have "length (rows sides) = length (rows ?dl)"
    using sides _ dr by (rule join_left_length) (simp add: shared_fields_def)
  moreover have "length (rows joined) = length (rows sides)"
    using joined _ db by (rule join_left_length) simp
  moreover have "length (rows srt) = length (rows joined)"
    using orderBy_SomeD [OF srt] by simp
  ultimately show "length (rows t) = length (concat (partitions left_csv))"
    by (simp add: t rows_drop_columns toDF_def length_rows_with_timestep)
  have first: "''timestep'' \<in> set (filter (\<lambda>c. \<not> list_ex (same_name c) timestamp_columns)
                                         (columns joined))"
    using join_left_SomeD [OF joined] not_dropped_literals by simp
  have "map (\<lambda>r. as_num (col (columns t) r ''timestep'')) (rows t)
          = map (\<lambda>r. as_num (col (columns joined) r ''timestep''))
                (sort_key (\<lambda>r. as_num (col (columns joined) r ''timestep'')) (rows joined))"
    using orderBy_SomeD [OF srt] first
    by (simp add: t rows_drop_columns columns_drop_columns comp_def col_map)
  then show "sorted (map (\<lambda>r. as_num (col (columns t) r ''timestep'')) (rows t))"
    by (simp only: sorted_sort_key)
qed

lemma count_list_renamed:
  "(\<forall>c. (ren c = k) = (c = k)) \<Longrightarrow> count_list (map ren cols) k = count_list cols k"
  by (induction cols) simp_all

lemma resolves_left_colnames:
  assumes "k \<in> set shared_fields"
  shows "resolves (left_colnames cols) k = resolves cols k"
proof -
  have "\<forall>c. ((if c \<notin> set shared_fields then c @ ''_L'' else c) = k) = (c = k)"
    using assms suffix_L_not_shared by (metis (full_types))
  then have "count_list (map (\<lambda>c. if c \<notin> set shared_fields then c @ ''_L'' else c) cols) k
               = count_list cols k"
    by (rule count_list_renamed)
  then show ?thesis by (simp add: resolves_def left_colnames_def)
qed

lemma resolves_right_colnames:
  assumes "k \<in> set shared_fields"
  shows "resolves (right_colnames cols) k = resolves cols k"
proof -
  have "\<forall>c. ((if c \<notin> set shared_fields then c @ ''_R'' else c) = k) = (c = k)"
    using assms suffix_R_not_shared by (metis (full_types))
  then have "count_list (map (\<lambda>c. if c \<notin> set shared_fields then c @ ''_R'' else c) cols) k
               = count_list cols k"
    by (rule count_list_renamed)
  then show ?thesis by (simp add: resolves_def right_colnames_def)
qed

lemma list_all_resolves_left:
  "list_all (resolves (left_colnames cols)) shared_fields = list_all (resolves cols) shared_fields"
  by (simp add: list_all_iff resolves_left_colnames)

lemma list_all_resolves_right:
  "list_all (resolves (right_colnames cols)) shared_fields = list_all (resolves cols) shared_fields"
  by (simp add: list_all_iff resolves_right_colnames)

lemma count_list_filter_out: "\<not> P k \<Longrightarrow> count_list (filter P xs) k = 0"
  by (simp add: count_list_0_iff)

lemma dataset_preparation_readable:
  assumes "readable_run left_csv right_csv labels_csv"
  shows "\<exists>t. dataset_preparation left_csv right_csv labels_csv = Some t"
proof -
  let ?wl = "with_timestep left_csv" and ?wr = "with_timestep right_csv"
  let ?wb = "with_timestep labels_csv"
  let ?dl = "toDF (left_colnames (columns ?wl)) ?wl"
  let ?dr = "toDF (right_colnames (columns ?wr)) ?wr"
  from assms obtain b2 where b2: "select label_columns ?wb = Some b2"
    by (simp add: readable_run_def select_def)
  have cb2: "columns b2 = label_columns" using select_SomeD [OF b2] by simp
  let ?b3 = "withColumn ''road_condition'' (map (cond (columns b2)) (rows b2)) b2"
  have "columns ?b3 = label_columns @ [''road_condition'']"
    by (simp add: columns_withColumn cb2)
       (simp add: label_columns_def same_name_def lower_literals lower_label_literals)
  then have "list_all (resolves (columns ?b3)) [''timestep'', ''road_condition'']"
    by (simp add: resolves_def label_columns_def)
  then obtain b4 where b4: "select [''timestep'', ''road_condition''] ?b3 = Some b4"
    by (simp add: select_def)
  have cb4: "columns b4 = [''timestep'', ''road_condition'']" using select_SomeD [OF b4] by simp
  from assms obtain sides where sides: "join_left shared_fields ?dl ?dr = Some sides"
    by (simp add: readable_run_def join_left_def toDF_def list_all_resolves_left
          list_all_resolves_right)
  have cs: "columns sides = shared_fields
              @ filter (\<lambda>c. c \<notin> set shared_fields) (columns ?dl)
              @ filter (\<lambda>c. c \<notin> set shared_fields) (columns ?dr)"
    using join_left_SomeD [OF sides] by simp
  have ts: "''timestep'' \<in> set shared_fields" by (simp add: shared_fields_def)
  have "count_list (columns sides) ''timestep'' = count_list shared_fields ''timestep''"
    using ts by (simp only: cs count_list_append) (simp add: count_list_filter_out)
  then have rs: "resolves (columns sides) ''timestep''"
    by (simp add: resolves_def shared_fields_def)
  then obtain joined where joined: "join_left [''timestep''] sides b4 = Some joined"
    by (simp add: join_left_def cb4 resolves_def)
  have "columns joined = ''timestep'' # filter (\<lambda>c. c \<notin> set [''timestep'']) (columns sides)
                            @ [''road_condition'']"
    using join_left_SomeD [OF joined] by (simp add: cb4)
  then have "count_list (columns joined) ''timestep'' = 1"
    by (simp add: count_list_filter_out)
  then obtain srt where srt: "orderBy ''timestep'' joined = Some srt"
    by (simp add: orderBy_def resolves_def)
  show ?thesis
    by (simp add: dataset_preparation_def Let_def b2 b4 sides joined srt)
qed

lemma dataset_preparation_Some_iff:
  "(\<exists>t. dataset_preparation left_csv right_csv labels_csv = Some t)
     = readable_run left_csv right_csv labels_csv"
proof
  assume "\<exists>t. dataset_preparation left_csv right_csv labels_csv = Some t"
  then obtain t where "dataset_preparation left_csv right_csv labels_csv = Some t" by blast
  then obtain b2 sides where
    "select label_columns (with_timestep labels_csv) = Some b2"
    "join_left shared_fields
       (toDF (left_colnames (columns (with_timestep left_csv))) (with_timestep left_csv))
       (toDF (right_colnames (columns (with_timestep right_csv))) (with_timestep right_csv)) = Some sides"
    by (rule dataset_preparation_SomeD)
  then show "readable_run left_csv right_csv labels_csv"
    by (auto simp: readable_run_def select_def join_left_def toDF_def list_all_resolves_left
          list_all_resolves_right split: if_splits)
next
  assume "readable_run left_csv right_csv labels_csv"
  then show "\<exists>t. dataset_preparation left_csv right_csv labels_csv = Some t"
    by (rule dataset_preparation_readable)
qed

lemma monotonically_increasing_id_snoc:
  "monotonically_increasing_id (sizes @ [n]) =
     monotonically_increasing_id sizes @ map (\<lambda>i. int (length sizes) * 2 ^ 33 + int i) [0 ..< n]"
  by (simp add: monotonically_increasing_id_def zip_append1)

lemma monotonically_increasing_id_bound:
  "list_all (\<lambda>n. n \<le> 2 ^ 33) sizes \<Longrightarrow>
   \<forall>x \<in> set (monotonically_increasing_id sizes). 0 \<le> x \<and> x < int (length sizes) * 2 ^ 33"
proof (induction sizes rule: rev_induct)
  case Nil
  then show ?case by (simp add: monotonically_increasing_id_def)
next
  case (snoc n sizes)
  then have ih: "\<forall>x \<in> set (monotonically_increasing_id sizes).
                   0 \<le> x \<and> x < int (length sizes) * 2 ^ 33"
    and n: "n \<le> 2 ^ 33" by simp_all
  show ?case
  proof
    fix x assume "x \<in> set (monotonically_increasing_id (sizes @ [n]))"
    then consider "x \<in> set (monotonically_increasing_id sizes)"
      | i where "i < n" "x = int (length sizes) * 2 ^ 33 + int i"
      by (auto simp: monotonically_increasing_id_snoc)
    then show "0 \<le> x \<and> x < int (length (sizes @ [n])) * 2 ^ 33"
    proof cases
      case 1
      then show ?thesis using ih by (fastforce simp: algebra_simps)
    next
      case 2
      then have "int i < 2 ^ 33" using n by simp
      with 2 show ?thesis by (simp add: algebra_simps)
    qed
  qed
qed

lemma distinct_monotonically_increasing_id:
  "list_all (\<lambda>n. n \<le> 2 ^ 33) sizes \<Longrightarrow> distinct (monotonically_increasing_id sizes)"
proof (induction sizes rule: rev_induct)
  case Nil
  then show ?case by (simp add: monotonically_increasing_id_def)
next
  case (snoc n sizes)
  then have d: "distinct (monotonically_increasing_id sizes)"
    and a: "list_all (\<lambda>n. n \<le> 2 ^ 33) sizes" by simp_all
  have new: "distinct (map (\<lambda>i. int (length sizes) * 2 ^ 33 + int i) [0 ..< n])"
    by (simp add: distinct_map inj_on_def)
  have "set (monotonically_increasing_id sizes)
          \<inter> set (map (\<lambda>i. int (length sizes) * 2 ^ 33 + int i) [0 ..< n]) = {}"
    using monotonically_increasing_id_bound [OF a] by fastforce
  with d new show ?case by (simp add: monotonically_increasing_id_snoc)
qed

lemma dataset_preparation_sample:
  "dataset_preparation sample_left sample_right sample_labels = Some sample_aligned"
  by code_simp

lemma readable_run_sample: "readable_run sample_left sample_right sample_labels"
  by code_simp

text \<open>
  Claim C7. For a run whose files can be merged and whose generated \<open>timestep\<close>
  values are unique in the right table and in the label table (part of the join-key
  precondition of the claim; nothing else of it is needed, and it holds whenever no
  partition has more than \<open>2^33\<close> records), \<open>dataset_preparation\<close> returns a table
  that has as many rows as the left table and is in ascending order of \<open>timestep\<close>.
\<close>

theorem dataset_preparation_row_count:
  assumes "readable_run left_csv right_csv labels_csv"
    and "distinct (monotonically_increasing_id (map length (partitions right_csv)))"
    and "distinct (monotonically_increasing_id (map length (partitions labels_csv)))"
  shows "\<exists>t. dataset_preparation left_csv right_csv labels_csv = Some t
           \<and> length (rows t) = length (concat (partitions left_csv))
           \<and> sorted (map (\<lambda>r. as_num (col (columns t) r ''timestep'')) (rows t))"
proof -
  from dataset_preparation_readable [OF assms(1)]
  obtain t where t: "dataset_preparation left_csv right_csv labels_csv = Some t" by blast
  from dataset_preparation_rows_raw [OF t assms(2) assms(3)] t show ?thesis by blast
qed

theorem dataset_preparation_row_count_witness:
  "readable_run sample_left sample_right sample_labels
   \<and> distinct (monotonically_increasing_id (map length (partitions sample_right)))
   \<and> distinct (monotonically_increasing_id (map length (partitions sample_labels)))
   \<and> dataset_preparation sample_left sample_right sample_labels = Some sample_aligned
   \<and> length (rows sample_aligned) = 3
   \<and> sorted (map (\<lambda>r. as_num (col (columns sample_aligned) r ''timestep'')) (rows sample_aligned))"
proof -
  have r: "distinct (monotonically_increasing_id (map length (partitions sample_right)))"
    by code_simp
  have b: "distinct (monotonically_increasing_id (map length (partitions sample_labels)))"
    by code_simp
  have "length (concat (partitions sample_left)) = 3" by (simp add: sample_left_def)
  with dataset_preparation_row_count [OF readable_run_sample r b] r b
    dataset_preparation_sample readable_run_sample
  show ?thesis by simp
qed

text \<open>
  Claim C8. For a run whose files can be merged, \<open>dataset_preparation\<close> returns a
  table in which every column is one of the four shared fields \<open>timestep\<close>,
  \<open>latitude\<close>, \<open>longitude\<close>, \<open>speed\<close>, or \<open>road_condition\<close>, or a column of the left
  file other than the shared fields with the suffix \<open>_L\<close>, or such a column of the
  right file with the suffix \<open>_R\<close>; each shared field appears once, unsuffixed; and
  none of \<open>timestamp_L\<close>, \<open>timestamp_R\<close>, \<open>timestamp_gps_L\<close>, \<open>timestamp_gps_R\<close> is
  present. For ASCII column names the list is, in this order: the shared fields, the
  other left columns with \<open>_L\<close>, the other right columns with \<open>_R\<close>, \<open>road_condition\<close>,
  where a column whose name is \<open>timestep\<close> up to case has been replaced by \<open>timestep\<close>
  and the columns whose suffixed name is one of the four timestamp names up to case
  have been dropped.
\<close>

theorem dataset_preparation_columns:
  assumes "readable_run left_csv right_csv labels_csv"
  shows "\<exists>t. dataset_preparation left_csv right_csv labels_csv = Some t
         \<and> (\<forall>c \<in> set (columns t).
               c \<in> set shared_fields \<or> c = ''road_condition''
               \<or> (\<exists>h \<in> set (header left_csv). h \<notin> set shared_fields \<and> c = h @ ''_L'')
               \<or> (\<exists>h \<in> set (header right_csv). h \<notin> set shared_fields \<and> c = h @ ''_R''))
         \<and> (\<forall>f \<in> set shared_fields. count_list (columns t) f = 1)
         \<and> set (columns t) \<inter> set timestamp_columns = {}
         \<and> (ascii_names (header left_csv) \<and> ascii_names (header right_csv) \<longrightarrow>
              columns t = shared_fields
                @ filter (\<lambda>n. \<not> list_ex (same_name n) timestamp_columns)
                    (map (\<lambda>c. c @ ''_L'')
                       (filter (\<lambda>c. c \<notin> set shared_fields \<and> \<not> same_name ''timestep'' c)
                          (header left_csv)))
                @ filter (\<lambda>n. \<not> list_ex (same_name n) timestamp_columns)
                    (map (\<lambda>c. c @ ''_R'')
                       (filter (\<lambda>c. c \<notin> set shared_fields \<and> \<not> same_name ''timestep'' c)
                          (header right_csv)))
                @ [''road_condition''])"
proof -
  let ?lo = "filter (\<lambda>n. \<not> list_ex (same_name n) timestamp_columns)
               (map (\<lambda>c. c @ ''_L'')
                  (filter (\<lambda>c. c \<notin> set shared_fields \<and> \<not> same_name ''timestep'' c) (header left_csv)))"
  let ?ro = "filter (\<lambda>n. \<not> list_ex (same_name n) timestamp_columns)
               (map (\<lambda>c. c @ ''_R'')
                  (filter (\<lambda>c. c \<notin> set shared_fields \<and> \<not> same_name ''timestep'' c) (header right_csv)))"
  from dataset_preparation_readable [OF assms]
  obtain t where t: "dataset_preparation left_csv right_csv labels_csv = Some t" by blast
  have cols: "columns t = shared_fields @ ?lo @ ?ro @ [''road_condition'']"
    using t by (rule dataset_preparation_columns_raw)
  have lo: "\<forall>f \<in> set shared_fields. f \<notin> set ?lo" using suffix_L_not_shared by auto
  have ro: "\<forall>f \<in> set shared_fields. f \<notin> set ?ro" using suffix_R_not_shared by auto
  have origin: "\<forall>c \<in> set (columns t).
               c \<in> set shared_fields \<or> c = ''road_condition''
               \<or> (\<exists>h \<in> set (header left_csv). h \<notin> set shared_fields \<and> c = h @ ''_L'')
               \<or> (\<exists>h \<in> set (header right_csv). h \<notin> set shared_fields \<and> c = h @ ''_R'')"
    unfolding cols by auto
  have once: "\<forall>f \<in> set shared_fields. count_list (columns t) f = 1"
  proof
    fix f assume f: "f \<in> set shared_fields"
    have "count_list ?lo f = 0" "count_list ?ro f = 0"
      using lo ro f by (simp_all only: count_list_0_iff) blast+
    moreover have "count_list shared_fields f = 1" "count_list [''road_condition''] f = 0"
      using f by (auto simp: shared_fields_def)
    ultimately show "count_list (columns t) f = 1" by (simp only: cols count_list_append)
  qed
  have kept: "\<forall>c \<in> set ?lo \<union> set ?ro. c \<notin> set timestamp_columns"
    using same_name_refl by (auto simp: list_ex_iff)
  have none: "set (columns t) \<inter> set timestamp_columns = {}"
    unfolding cols using kept by (auto simp: shared_fields_def timestamp_columns_def)
  from t cols origin once none show ?thesis by blast
qed

theorem dataset_preparation_columns_witness:
  "readable_run sample_left sample_right sample_labels
   \<and> dataset_preparation sample_left sample_right sample_labels = Some sample_aligned
   \<and> columns sample_aligned = [''timestep'', ''latitude'', ''longitude'', ''speed'',
                                 ''acc_x_L'', ''acc_x_R'', ''road_condition'']
   \<and> ''timestamp'' \<in> set (header sample_left)"
  using dataset_preparation_columns [OF readable_run_sample] dataset_preparation_sample
    readable_run_sample
  by (simp add: sample_aligned_def sample_left_def)

end
